theory Spec2Isabelle
  imports Complex_Main "HOL-Library.Char_ord" "HOL-Library.List_Lexorder" "HOL-Library.Multiset"
begin

section \<open>Position ledger\<close>

text \<open>
  \<^verbatim>\<open>position.pxd\<close> declares the attributes and the methods of \<open>Position\<close>; the bodies
  of the methods are not part of the sources at hand. The records follow the
  declaration and section 3 of the specification, the functions section 4.1.
  A \<open>Decimal\<close>, a \<open>Quantity\<close> and a \<open>Price\<close> are exact rationals here: the rounding of
  Python's decimal context and of \<open>Money\<close> to the precision of its currency is no
  part of the model. Identifiers are their string values, timestamps integers.
\<close>

datatype OrderSide = BUY | SELL

datatype PositionSide = FLAT | LONG | SHORT

record Money =
  amount :: rat
  currency :: string

text \<open>The fill event of section 3 (\<open>OrderFilled\<close>).\<close>

record OrderFilled =
  fill_instrument_id :: string
  fill_side :: OrderSide
  fill_qty :: rat
  fill_price :: rat
  fill_commission :: Money
  fill_execution_id :: string
  fill_order_id :: string
  fill_ts :: int

text \<open>
  The attributes of \<open>Position\<close>. \<open>realized_points\<close> and \<open>realized_return\<close> are left
  out: the specification says when they are set and gives no formula for them.
\<close>

record Position =
  events :: "OrderFilled list"
  execution_ids :: "string list"
  buy_qty :: rat
  sell_qty :: rat
  commissions :: "string \<rightharpoonup> rat"
  trader_id :: string
  strategy_id :: string
  instrument_id :: string
  position_id :: string
  account_id :: string
  from_order :: string
  entry :: OrderSide
  side :: PositionSide
  net_qty :: rat
  quantity :: rat
  peak_qty :: rat
  multiplier :: rat
  is_inverse :: bool
  cost_currency :: string
  ts_opened :: int
  ts_last :: int
  ts_closed :: "int option"
  avg_px_open :: rat
  avg_px_close :: "rat option"
  realized_pnl :: Money

datatype ledger_error = DataIntegrityError | ZeroDivisionError

text \<open>
  Modelled from the spec: \<^verbatim>\<open>Position._calculate_points\<close>,
  \<^verbatim>\<open>Position._calculate_points_inverse\<close>, \<^verbatim>\<open>Position._calculate_pnl\<close> and
  \<^verbatim>\<open>Position.calculate_pnl\<close>, whose bodies are missing. Section 4.1: "for standard
  contracts, (avg_close - avg_open) * qty * multiplier, sign-adjusted for SHORT
  (negate); for inverse contracts, qty * multiplier * (1/avg_open - 1/avg_close),
  sign-adjusted for SHORT. Result is Money in cost_currency." Python's \<open>Decimal\<close>
  raises on a division by zero.
\<close>

definition calculate_points :: "Position \<Rightarrow> rat \<Rightarrow> rat \<Rightarrow> ledger_error + rat" where
  "calculate_points p avg_open avg_close =
     Inr (if side p = SHORT then - (avg_close - avg_open) else avg_close - avg_open)"

definition calculate_points_inverse :: "Position \<Rightarrow> rat \<Rightarrow> rat \<Rightarrow> ledger_error + rat" where
  "calculate_points_inverse p avg_open avg_close =
     (if avg_open = 0 \<or> avg_close = 0 then Inl ZeroDivisionError
      else Inr (if side p = SHORT then - (1 / avg_open - 1 / avg_close)
                else 1 / avg_open - 1 / avg_close))"

definition calculate_pnl_dec :: "Position \<Rightarrow> rat \<Rightarrow> rat \<Rightarrow> rat \<Rightarrow> ledger_error + rat" where
  "calculate_pnl_dec p avg_open avg_close qty =
     (case (if is_inverse p then calculate_points_inverse p avg_open avg_close
            else calculate_points p avg_open avg_close) of
        Inl e \<Rightarrow> Inl e
      | Inr points \<Rightarrow> Inr (qty * multiplier p * points))"

definition calculate_pnl :: "Position \<Rightarrow> rat \<Rightarrow> rat \<Rightarrow> rat \<Rightarrow> ledger_error + Money" where
  "calculate_pnl p avg_open avg_close qty =
     (case calculate_pnl_dec p avg_open avg_close qty of
        Inl e \<Rightarrow> Inl e
      | Inr pnl \<Rightarrow> Inr \<lparr>amount = pnl, currency = cost_currency p\<rparr>)"

text \<open>
  Modelled from the spec: \<^verbatim>\<open>Position.is_opposite_side\<close> (a fill "opposes current
  side"), the side derived from \<open>net_qty\<close> (section 3), and \<^verbatim>\<open>Position._calculate_avg_px\<close>,
  the quantity-weighted rolling mean of a prior average and a fill price.
\<close>

definition is_opposite_side :: "Position \<Rightarrow> OrderSide \<Rightarrow> bool" where
  "is_opposite_side p s = ((side p = LONG \<and> s = SELL) \<or> (side p = SHORT \<and> s = BUY))"

definition side_of_net :: "rat \<Rightarrow> PositionSide" where
  "side_of_net n = (if n > 0 then LONG else if n < 0 then SHORT else FLAT)"

definition calculate_avg_px :: "rat \<Rightarrow> rat \<Rightarrow> rat \<Rightarrow> rat \<Rightarrow> rat" where
  "calculate_avg_px avg_px qty px fqty = (avg_px * qty + px * fqty) / (qty + fqty)"

text \<open>
  Modelled from the spec: the closing portion of \<^verbatim>\<open>Position.apply\<close> (section 4.1). It
  realizes \<open>calculate_pnl(avg_px_open, fill.price, closing_qty)\<close> into \<open>realized_pnl\<close>,
  leaves \<open>avg_px_open\<close> alone, reduces \<open>quantity\<close>, and sets \<open>ts_closed\<close> when the
  quantity reaches zero. \<open>avg_px_close\<close> is the quantity-weighted mean exit price of
  the glossary, the prior mean weighted by the quantity already traded on the closing
  side.
\<close>

definition close_portion :: "Position \<Rightarrow> OrderFilled \<Rightarrow> rat \<Rightarrow> ledger_error + Position" where
  "close_portion p fill closing_qty =
     (if closing_qty \<le> 0 then Inr p
      else case calculate_pnl p (avg_px_open p) (fill_price fill) closing_qty of
        Inl e \<Rightarrow> Inl e
      | Inr pnl \<Rightarrow>
          let q = quantity p - closing_qty;
              closed = (if side p = LONG then sell_qty p else buy_qty p);
              p1 = p\<lparr>realized_pnl := \<lparr>amount = amount (realized_pnl p) + amount pnl,
                                       currency = cost_currency p\<rparr>,
                     avg_px_close := Some (case avg_px_close p of
                        None \<Rightarrow> fill_price fill
                      | Some a \<Rightarrow> calculate_avg_px a closed (fill_price fill) closing_qty),
                     quantity := q\<rparr>
          in Inr (if q = 0 then p1\<lparr>ts_closed := Some (fill_ts fill)\<rparr> else p1))"

text \<open>
  Modelled from the spec: the opening portion of \<^verbatim>\<open>Position.apply\<close>. A same-direction
  add recomputes \<open>avg_px_open\<close> as the rolling mean (prior weight: the open quantity); the
  remainder after a flip resets \<open>avg_px_open\<close> to the fill price and clears
  \<open>avg_px_close\<close>; after a flip the position is open, so \<open>ts_closed\<close> is unset (section 8).
\<close>

definition open_portion :: "Position \<Rightarrow> OrderFilled \<Rightarrow> bool \<Rightarrow> rat \<Rightarrow> Position" where
  "open_portion p fill flip opening_qty =
     (if opening_qty \<le> 0 then p
      else if flip then
        p\<lparr>avg_px_open := fill_price fill, avg_px_close := None, ts_closed := None,
          quantity := opening_qty\<rparr>
      else
        p\<lparr>avg_px_open :=
            calculate_avg_px (avg_px_open p) (quantity p) (fill_price fill) opening_qty,
          quantity := quantity p + opening_qty\<rparr>)"

text \<open>
  Modelled from the spec: the commission of a fill "is added to the per-currency
  mapping (summed by currency)", the last step of \<^verbatim>\<open>Position.apply\<close>.
\<close>

definition add_commission :: "(string \<rightharpoonup> rat) \<Rightarrow> Money \<Rightarrow> (string \<rightharpoonup> rat)" where
  "add_commission m c =
     m(currency c \<mapsto> (case m (currency c) of None \<Rightarrow> amount c | Some a \<Rightarrow> a + amount c))"

text \<open>
  Modelled from the spec: \<^verbatim>\<open>Position.apply\<close>, whose body is missing. Section 4.1: the
  precondition (same instrument, execution id not applied before) is checked first and
  its violation is the fatal \<open>DataIntegrityError\<close>; the fill is split into a closing and
  an opening portion; then quantity, net quantity, peak quantity and \<open>ts_last\<close> are
  updated, the fill and its execution id appended, the commission summed by currency.
  The result is the error raised, if any, and the position after the call.
\<close>

definition Position_apply :: "Position \<Rightarrow> OrderFilled \<Rightarrow> ledger_error option \<times> Position" where
  "Position_apply p fill =
     (if fill_instrument_id fill \<noteq> instrument_id p
         \<or> fill_execution_id fill \<in> set (execution_ids p)
      then (Some DataIntegrityError, p)
      else
        let closing_qty = (if is_opposite_side p (fill_side fill)
                           then min (quantity p) (fill_qty fill) else 0);
            opening_qty = fill_qty fill - closing_qty
        in case close_portion p fill closing_qty of
             Inl e \<Rightarrow> (Some e, p)
           | Inr p1 \<Rightarrow>
               let p2 = open_portion p1 fill (0 < closing_qty) opening_qty;
                   buys = (if fill_side fill = BUY then buy_qty p + fill_qty fill
                           else buy_qty p);
                   sells = (if fill_side fill = SELL then sell_qty p + fill_qty fill
                            else sell_qty p);
                   net = buys - sells
               in (None,
                   p2\<lparr>buy_qty := buys, sell_qty := sells,
                      net_qty := net, side := side_of_net net,
                      peak_qty := max (peak_qty p) (quantity p2),
                      ts_last := fill_ts fill,
                      events := events p @ [fill],
                      execution_ids := execution_ids p @ [fill_execution_id fill],
                      commissions :=
                        add_commission (commissions p) (fill_commission fill)\<rparr>))"

section \<open>Objects, identifiers and collaborators\<close>

text \<open>
  Python objects are reached through references. A reference is a natural number; the
  object store of the session maps every reference to the component it denotes.
  Identifiers (\<open>TraderId\<close>, \<open>StrategyId\<close>, \<open>ComponentId\<close>, \<open>Venue\<close>) are their
  string values, ordered as Python orders \<open>str\<close>: lexicographically by character code.
\<close>

type_synonym ref = nat

text \<open>
  Modelled from the spec: the lifecycle states of \<open>Component\<close> (section 4.2); the class
  itself is not part of \<^verbatim>\<open>trader.pyx\<close>.
\<close>

datatype ComponentState =
    PRE_INITIALIZED | INITIALIZED | STARTING | RUNNING
  | STOPPING | STOPPED | RESETTING | DISPOSED

text \<open>
  Modelled from the spec: a \<open>Logger\<close> is a parent logger or the child logger obtained
  from one (section 6, "per-component child logger obtainable from a parent logger").
\<close>

datatype logger = Logger string | Child logger

definition get_logger :: "logger \<Rightarrow> logger" where
  "get_logger l = Child l"

text \<open>
  A clock object: its identity and its class. \<^verbatim>\<open>self._clock.__class__()\<close> constructs a
  new object of the class of the trader's clock.
\<close>

record clock =
  clock_obj :: ref
  clock_cls :: string

text \<open>The lifecycle verbs the trader invokes on its units.\<close>

datatype verb = Start | Stop | Reset

text \<open>
  The exceptions: those of the \<open>Condition\<close> checks, and the error an overridable hook
  of a unit raises (section 4.2: it "is fatal and propagates to the caller uncaught").
\<close>

datatype exn = TypeError string | KeyError string | ValueError string | HookFailure verb

text \<open>
  An \<open>Actor\<close> or \<open>TradingStrategy\<close>: its id, its lifecycle state, what
  \<^verbatim>\<open>register\<close> / \<^verbatim>\<open>register_base\<close> wired into it (\<open>None\<close> before registration), and
  the behaviour of its overridable hooks: \<open>raising\<close> holds the verbs whose hook
  (\<open>on_start\<close>, \<open>on_stop\<close>, \<open>on_reset\<close>) raises.
\<close>

record component =
  cid :: string
  cstate :: ComponentState
  c_trader_id :: "string option"
  c_portfolio :: "ref option"
  c_msgbus :: "ref option"
  c_cache :: "ref option"
  c_clock :: "clock option"
  c_log :: "logger option"
  raising :: "verb set"

text \<open>Modelled from the spec: \<^verbatim>\<open>is_running_c\<close> and \<^verbatim>\<open>is_disposed_c\<close> of \<open>Component\<close>
  read the lifecycle state.\<close>

definition is_running_c :: "component \<Rightarrow> bool" where
  "is_running_c c = (cstate c = RUNNING)"

definition is_disposed_c :: "component \<Rightarrow> bool" where
  "is_disposed_c c = (cstate c = DISPOSED)"

text \<open>
  Modelled from the spec: the lifecycle verbs of \<open>Component\<close> (section 4.2), which are
  not part of \<^verbatim>\<open>trader.pyx\<close>. The states form the chain \<open>INITIALIZED\<close>, \<open>STARTING\<close>,
  \<open>RUNNING\<close>, \<open>STOPPING\<close>, \<open>STOPPED\<close>, \<open>RESETTING\<close>, \<open>INITIALIZED\<close>. A verb called in
  the state its transition leaves from drives the transition and invokes the hook:
  \<open>start()\<close> from \<open>INITIALIZED\<close>, \<open>stop()\<close> from \<open>RUNNING\<close>, \<open>reset()\<close> from \<open>STOPPED\<close>.
  When the hook returns, the unit reaches the end of the transition; when the hook
  raises, the error leaves the verb and the unit stays in the transitional state.
  Called in any other state the verb is a logged no-op (\<open>start()\<close> on a running
  component, \<open>stop()\<close> on one that is not running; section 7, "illegal-but-idempotent
  control call ... treated as a no-op"); \<open>DISPOSED\<close> is terminal. The result is the
  error raised, if any, and the unit after the call. The unit's own log lines go to its
  own logger and are not recorded.
\<close>

definition Component_start :: "component \<Rightarrow> exn option \<times> component" where
  "Component_start c =
     (if cstate c \<noteq> INITIALIZED then (None, c)
      else if Start \<in> raising c then (Some (HookFailure Start), c\<lparr>cstate := STARTING\<rparr>)
      else (None, c\<lparr>cstate := RUNNING\<rparr>))"

definition Component_stop :: "component \<Rightarrow> exn option \<times> component" where
  "Component_stop c =
     (if cstate c \<noteq> RUNNING then (None, c)
      else if Stop \<in> raising c then (Some (HookFailure Stop), c\<lparr>cstate := STOPPING\<rparr>)
      else (None, c\<lparr>cstate := STOPPED\<rparr>))"

definition Component_reset :: "component \<Rightarrow> exn option \<times> component" where
  "Component_reset c =
     (if cstate c \<noteq> STOPPED then (None, c)
      else if Reset \<in> raising c then (Some (HookFailure Reset), c\<lparr>cstate := RESETTING\<rparr>)
      else (None, c\<lparr>cstate := INITIALIZED\<rparr>))"

text \<open>
  Modelled from the spec: \<^verbatim>\<open>TradingStrategy.register\<close> and \<^verbatim>\<open>Actor.register_base\<close>
  store the services they are given (section 4.3, "the unit is wired with ...").
  \<open>register_base\<close> takes no portfolio.
\<close>

definition register ::
  "string \<Rightarrow> ref \<Rightarrow> ref \<Rightarrow> ref \<Rightarrow> clock \<Rightarrow> logger \<Rightarrow> component \<Rightarrow> component" where
  "register tid portfolio msgbus cache clk lg c =
     c\<lparr>c_trader_id := Some tid, c_portfolio := Some portfolio,
       c_msgbus := Some msgbus, c_cache := Some cache,
       c_clock := Some clk, c_log := Some lg\<rparr>"

definition register_base ::
  "string \<Rightarrow> ref \<Rightarrow> ref \<Rightarrow> clock \<Rightarrow> logger \<Rightarrow> component \<Rightarrow> component" where
  "register_base tid msgbus cache clk lg c =
     c\<lparr>c_trader_id := Some tid,
       c_msgbus := Some msgbus, c_cache := Some cache,
       c_clock := Some clk, c_log := Some lg\<rparr>"

section \<open>The trader and its session\<close>

datatype log_level = INFO | WARNING | ERROR

text \<open>
  What a call of the trader does beyond changing its own fields, in the order it does
  it: a line through the trader's logger (level, text, and the unit an f-string formats
  into the text), a lifecycle verb invoked on a unit, \<^verbatim>\<open>register_oms_type\<close> on the
  execution engine, \<^verbatim>\<open>reset()\<close> on the portfolio and on the analyzer.
\<close>

datatype event =
    Log log_level string "ref option"
  | Call ref verb
  | Register_oms_type ref
  | Portfolio_reset
  | Analyzer_reset

text \<open>
  An order and an account event, as the cache holds them, are the lists of their field
  values; a data frame is the list of its rows, \<^verbatim>\<open>pd.DataFrame()\<close> the empty list.
\<close>

type_synonym order = "string list"
type_synonym account = "string list list"
type_synonym dataframe = "string list list"

text \<open>
  The \<open>Trader\<close> together with the objects it works on. \<open>t_actors\<close> and
  \<open>t_strategies\<close> are the lists \<^verbatim>\<open>_actors\<close> and \<^verbatim>\<open>_strategies\<close>, holding references
  in registration order. \<open>objs\<close> is the object store, \<open>next_obj\<close> the next unused
  reference. \<open>cache_orders\<close>, \<open>cache_positions\<close> and \<open>cache_accounts\<close> are what
  \<^verbatim>\<open>Cache.orders\<close>, \<^verbatim>\<open>Cache.positions\<close> and \<^verbatim>\<open>Cache.account_for_venue\<close> read
  (section 6).
\<close>

record world =
  t_id :: string
  t_state :: ComponentState
  t_clock :: clock
  t_log :: logger
  t_msgbus :: ref
  t_cache :: ref
  t_portfolio :: ref
  t_actors :: "ref list"
  t_strategies :: "ref list"
  objs :: "ref \<Rightarrow> component"
  next_obj :: ref
  cache_orders :: "order list"
  cache_positions :: "Position list"
  cache_accounts :: "string \<rightharpoonup> account"
  trace :: "event list"

definition log_line :: "log_level \<Rightarrow> string \<Rightarrow> ref option \<Rightarrow> world \<Rightarrow> world" where
  "log_line lv txt who w = w\<lparr>trace := trace w @ [Log lv txt who]\<rparr>"

text \<open>
  Modelled from the spec: the equality of units, \<^verbatim>\<open>Component.__eq__\<close>, which is not
  part of \<^verbatim>\<open>trader.pyx\<close>. Two units are equal when their ids are ("rejects if the
  unit's identity is already registered"; the docstring of \<^verbatim>\<open>add_strategy\<close> says
  "If strategy.id already exists in the trader"). \<^verbatim>\<open>unit in self._strategies\<close>, the test
  of \<^verbatim>\<open>Condition.not_in\<close>, compares the unit with each element of the list.
\<close>

definition is_in :: "world \<Rightarrow> ref \<Rightarrow> ref list \<Rightarrow> bool" where
  "is_in w r rs = (cid (objs w r) \<in> set (map (\<lambda>x. cid (objs w x)) rs))"

text \<open>\<^verbatim>\<open>self._clock.__class__()\<close>: a new object, at the next unused reference.\<close>

definition new_clock :: "world \<Rightarrow> clock \<times> world" where
  "new_clock w =
     (\<lparr>clock_obj = next_obj w, clock_cls = clock_cls (t_clock w)\<rparr>,
      w\<lparr>next_obj := Suc (next_obj w)\<rparr>)"

text \<open>
  \<^verbatim>\<open>Trader.add_strategy\<close>. The result is the exception raised, if any, and the session
  after the call. \<open>None\<close> as argument is Python's \<open>None\<close>.
\<close>

definition add_strategy :: "world \<Rightarrow> ref option \<Rightarrow> exn option \<times> world" where
  "add_strategy w strategy =
     (case strategy of
        None \<Rightarrow> (Some (TypeError ''strategy''), w)
      | Some r \<Rightarrow>
          if is_in w r (t_strategies w) then (Some (KeyError ''strategy''), w)
          else if is_running_c (objs w r)
            then (Some (ValueError ''strategy.state was RUNNING''), w)
          else if is_disposed_c (objs w r)
            then (Some (ValueError ''strategy.state was DISPOSED''), w)
          else if t_state w = RUNNING
            then (None, log_line ERROR ''Cannot add a strategy to a running trader.'' None w)
          else
            let (clk, w1) = new_clock w;
                s = register (t_id w1) (t_portfolio w1) (t_msgbus w1) (t_cache w1)
                      clk (get_logger (t_log w1)) (objs w1 r);
                w2 = w1\<lparr>objs := (objs w1)(r := s)\<rparr>;
                w3 = w2\<lparr>trace := trace w2 @ [Register_oms_type r]\<rparr>;
                w4 = w3\<lparr>t_strategies := t_strategies w3 @ [r]\<rparr>
            in (None, log_line INFO ''Registered TradingStrategy {strategy}.'' (Some r) w4))"

text \<open>
  \<^verbatim>\<open>Trader.add_actor\<close>. It has no \<^verbatim>\<open>not_none\<close> check; the argument is a reference.
\<close>

definition add_actor :: "world \<Rightarrow> ref \<Rightarrow> exn option \<times> world" where
  "add_actor w r =
     (if is_in w r (t_actors w) then (Some (KeyError ''actor''), w)
      else if is_running_c (objs w r)
        then (Some (ValueError ''actor.state was RUNNING''), w)
      else if is_disposed_c (objs w r)
        then (Some (ValueError ''actor.state was DISPOSED''), w)
      else if t_state w = RUNNING
        then (None, log_line ERROR ''Cannot add component to a running trader.'' None w)
      else
        let (clk, w1) = new_clock w;
            a = register_base (t_id w1) (t_msgbus w1) (t_cache w1)
                  clk (get_logger (t_log w1)) (objs w1 r);
            w2 = w1\<lparr>objs := (objs w1)(r := a)\<rparr>;
            w3 = w2\<lparr>t_actors := t_actors w2 @ [r]\<rparr>
        in (None, log_line INFO ''Registered Component {actor}.'' (Some r) w3))"

section \<open>Lifecycle cascade\<close>

text \<open>
  A lifecycle verb invoked on the unit at a reference: the invocation is recorded, the
  unit changes in the store, and the call raises what the verb raises.
\<close>

definition verb_of :: "verb \<Rightarrow> component \<Rightarrow> exn option \<times> component" where
  "verb_of v = (case v of Start \<Rightarrow> Component_start | Stop \<Rightarrow> Component_stop
                | Reset \<Rightarrow> Component_reset)"

definition call :: "verb \<Rightarrow> ref \<Rightarrow> world \<Rightarrow> exn option \<times> world" where
  "call v r w =
     (case verb_of v (objs w r) of
        (e, c) \<Rightarrow> (e, w\<lparr>objs := (objs w)(r := c), trace := trace w @ [Call r v]\<rparr>))"

text \<open>
  \<^verbatim>\<open>for unit in units: unit.start()\<close> (and likewise \<open>reset\<close>). The loops of the trader
  have no \<^verbatim>\<open>try\<close>: an error raised by a unit ends the loop and the method.
\<close>

fun call_each :: "verb \<Rightarrow> ref list \<Rightarrow> world \<Rightarrow> exn option \<times> world" where
  "call_each v [] w = (None, w)"
| "call_each v (r # rs) w =
     (case call v r w of
        (Some e, w') \<Rightarrow> (Some e, w')
      | (None, w') \<Rightarrow> call_each v rs w')"

text \<open>The loop of \<^verbatim>\<open>_stop\<close>: \<open>stop()\<close> on a running unit, a warning for any other.\<close>

fun stop_each :: "string \<Rightarrow> ref list \<Rightarrow> world \<Rightarrow> exn option \<times> world" where
  "stop_each txt [] w = (None, w)"
| "stop_each txt (r # rs) w =
     (if is_running_c (objs w r) then
        (case call Stop r w of
           (Some e, w') \<Rightarrow> (Some e, w')
         | (None, w') \<Rightarrow> stop_each txt rs w')
      else stop_each txt rs (log_line WARNING txt (Some r) w))"

text \<open>\<^verbatim>\<open>Trader._start\<close>. The result is the error raised, if any, and the session after
  the call; likewise for \<^verbatim>\<open>_stop\<close> and \<^verbatim>\<open>_reset\<close>.\<close>

definition Trader_start :: "world \<Rightarrow> exn option \<times> world" where
  "Trader_start w =
     (if t_strategies w = [] then (None, log_line ERROR ''No strategies loaded.'' None w)
      else case call_each Start (t_actors w) w of
             (Some e, w1) \<Rightarrow> (Some e, w1)
           | (None, w1) \<Rightarrow> call_each Start (t_strategies w1) w1)"

text \<open>\<^verbatim>\<open>Trader._stop\<close>.\<close>

definition Trader_stop :: "world \<Rightarrow> exn option \<times> world" where
  "Trader_stop w =
     (case stop_each ''{actor} already stopped.'' (t_actors w) w of
        (Some e, w1) \<Rightarrow> (Some e, w1)
      | (None, w1) \<Rightarrow> stop_each ''{strategy} already stopped.'' (t_strategies w1) w1)"

text \<open>\<^verbatim>\<open>Trader._reset\<close>.\<close>

definition Trader_reset :: "world \<Rightarrow> exn option \<times> world" where
  "Trader_reset w =
     (case call_each Reset (t_actors w) w of
        (Some e, w1) \<Rightarrow> (Some e, w1)
      | (None, w1) \<Rightarrow>
          (case call_each Reset (t_strategies w1) w1 of
             (Some e, w2) \<Rightarrow> (Some e, w2)
           | (None, w2) \<Rightarrow>
               (None, w2\<lparr>trace := trace w2 @ [Portfolio_reset, Analyzer_reset]\<rparr>)))"

section \<open>Queries\<close>

text \<open>
  \<^verbatim>\<open>Trader.actor_ids\<close> and \<^verbatim>\<open>Trader.strategy_ids\<close>: \<^verbatim>\<open>sorted([unit.id for unit in units])\<close>.
  A query returns its value and the session after the call.
\<close>

definition actor_ids :: "world \<Rightarrow> string list \<times> world" where
  "actor_ids w = (sort (map (\<lambda>r. cid (objs w r)) (t_actors w)), w)"

definition strategy_ids :: "world \<Rightarrow> string list \<times> world" where
  "strategy_ids w = (sort (map (\<lambda>r. cid (objs w r)) (t_strategies w)), w)"

text \<open>
  Modelled from the spec: \<^verbatim>\<open>Cache.account_for_venue\<close>, which is not part of
  \<^verbatim>\<open>trader.pyx\<close>. It reads the cache (section 4.3, "read-only queries against Cache
  snapshots") and gives \<open>None\<close> when the cache holds no account for the venue;
  \<^verbatim>\<open>Cache.orders\<close> and \<^verbatim>\<open>Cache.positions\<close> read the fields \<open>cache_orders\<close> and
  \<open>cache_positions\<close> likewise.
\<close>

definition account_for_venue :: "world \<Rightarrow> string \<Rightarrow> account option" where
  "account_for_venue w venue = cache_accounts w venue"

text \<open>
  The four reports of the trader. \<^verbatim>\<open>ReportProvider\<close> is not part of \<^verbatim>\<open>trader.pyx\<close>:
  each report takes the provider's function as the parameter \<open>provider\<close>. A report
  returns its data frame and the session after the call.
\<close>

definition generate_orders_report ::
  "(order list \<Rightarrow> dataframe) \<Rightarrow> world \<Rightarrow> dataframe \<times> world" where
  "generate_orders_report provider w = (provider (cache_orders w), w)"

definition generate_order_fills_report ::
  "(order list \<Rightarrow> dataframe) \<Rightarrow> world \<Rightarrow> dataframe \<times> world" where
  "generate_order_fills_report provider w = (provider (cache_orders w), w)"

definition generate_positions_report ::
  "(Position list \<Rightarrow> dataframe) \<Rightarrow> world \<Rightarrow> dataframe \<times> world" where
  "generate_positions_report provider w = (provider (cache_positions w), w)"

definition generate_account_report ::
  "(account \<Rightarrow> dataframe) \<Rightarrow> world \<Rightarrow> string \<Rightarrow> dataframe \<times> world" where
  "generate_account_report provider w venue =
     (case account_for_venue w venue of
        None \<Rightarrow> ([], w)
      | Some account \<Rightarrow> (provider account, w))"

section \<open>Notions used in the statements\<close>

text \<open>The verb, invoked on the unit, raises: the unit is in the state the verb's
  transition leaves from, and the hook of the verb raises.\<close>

definition raises :: "verb \<Rightarrow> component \<Rightarrow> bool" where
  "raises v c =
     (v \<in> raising c \<and>
      cstate c = (case v of Start \<Rightarrow> INITIALIZED | Stop \<Rightarrow> RUNNING | Reset \<Rightarrow> STOPPED))"

text \<open>No unit of the list raises on the verb.\<close>

definition quiet :: "verb \<Rightarrow> world \<Rightarrow> ref list \<Rightarrow> bool" where
  "quiet v w rs = (\<forall>r \<in> set rs. \<not> raises v (objs w r))"

text \<open>The units that are running in a session.\<close>

definition running :: "world \<Rightarrow> ref set" where
  "running w = {r. is_running_c (objs w r)}"

text \<open>
  What the loop of \<^verbatim>\<open>_stop\<close> does for a list of units, given the set \<open>R\<close> of the units
  running when the loop begins: one event per unit, in the order of the list.
\<close>

fun stops :: "string \<Rightarrow> ref list \<Rightarrow> ref set \<Rightarrow> event list" where
  "stops txt [] R = []"
| "stops txt (r # rs) R =
     (if r \<in> R then Call r Stop else Log WARNING txt (Some r)) # stops txt rs (R - {r})"

text \<open>
  Every clock object the trader or a registered unit holds has been constructed: its
  reference is below the next unused one. Python gives no other way to hold an object.
\<close>

definition clocks_allocated :: "world \<Rightarrow> bool" where
  "clocks_allocated w =
     (clock_obj (t_clock w) < next_obj w \<and>
      (\<forall>r \<in> set (t_actors w @ t_strategies w).
         case c_clock (objs w r) of None \<Rightarrow> True | Some k \<Rightarrow> clock_obj k < next_obj w))"


section \<open>A sample session\<close>

definition usd :: "rat \<Rightarrow> Money" where
  "usd a = \<lparr>amount = a, currency = ''USD''\<rparr>"

definition fill1 :: OrderFilled where
  "fill1 = \<lparr>fill_instrument_id = ''AUD/USD.SIM'', fill_side = BUY, fill_qty = 100,
            fill_price = 10, fill_commission = usd 2, fill_execution_id = ''E-1'',
            fill_order_id = ''O-1'', fill_ts = 1\<rparr>"

definition fill2 :: OrderFilled where
  "fill2 = \<lparr>fill_instrument_id = ''AUD/USD.SIM'', fill_side = SELL, fill_qty = 150,
            fill_price = 12, fill_commission = usd 3, fill_execution_id = ''E-2'',
            fill_order_id = ''O-2'', fill_ts = 2\<rparr>"

text \<open>LONG 100 at 10, opened by \<open>fill1\<close>.\<close>

definition long100 :: Position where
  "long100 = \<lparr>events = [fill1], execution_ids = [''E-1''], buy_qty = 100, sell_qty = 0,
     commissions = [''USD'' \<mapsto> 2], trader_id = ''TESTER-000'', strategy_id = ''S-001'',
     instrument_id = ''AUD/USD.SIM'', position_id = ''P-1'', account_id = ''SIM-000'',
     from_order = ''O-1'', entry = BUY, side = LONG, net_qty = 100, quantity = 100,
     peak_qty = 100, multiplier = 1, is_inverse = False, cost_currency = ''USD'',
     ts_opened = 1, ts_last = 1, ts_closed = None, avg_px_open = 10, avg_px_close = None,
     realized_pnl = usd 0\<rparr>"

text \<open>A short position in an inverse contract.\<close>

definition short_inverse :: Position where
  "short_inverse = long100\<lparr>side := SHORT, entry := SELL, net_qty := - 100000,
     quantity := 100000, peak_qty := 100000, buy_qty := 0, sell_qty := 100000,
     is_inverse := True, cost_currency := ''BTC'', avg_px_open := 10000\<rparr>"

definition new_component :: "string \<Rightarrow> ComponentState \<Rightarrow> component" where
  "new_component i st =
     \<lparr>cid = i, cstate = st, c_trader_id = None, c_portfolio = None, c_msgbus = None,
      c_cache = None, c_clock = None, c_log = None, raising = {}\<rparr>"

definition wired_component ::
  "string \<Rightarrow> ComponentState \<Rightarrow> ref option \<Rightarrow> ref \<Rightarrow> component" where
  "wired_component i st pf k =
     \<lparr>cid = i, cstate = st, c_trader_id = Some ''TESTER-000'', c_portfolio = pf,
      c_msgbus = Some 7, c_cache = Some 8,
      c_clock = Some \<lparr>clock_obj = k, clock_cls = ''TestClock''\<rparr>,
      c_log = Some (Child (Logger ''TESTER-000'')), raising = {}\<rparr>"

definition example_objs :: "ref \<Rightarrow> component" where
  "example_objs =
     (\<lambda>r. new_component ''-'' PRE_INITIALIZED)
       (2 := wired_component ''S-001'' RUNNING (Some 9) 11,
        3 := wired_component ''A-001'' RUNNING None 12,
        4 := wired_component ''A-002'' STOPPED None 13,
        5 := new_component ''S-003'' DISPOSED,
        6 := new_component ''S-002'' INITIALIZED)"

text \<open>A running trader with the actors 3 and 4 and the strategy 2; the units 5 and 6 are
  not registered.\<close>

definition example_trader :: world where
  "example_trader =
     \<lparr>t_id = ''TESTER-000'', t_state = RUNNING,
      t_clock = \<lparr>clock_obj = 10, clock_cls = ''TestClock''\<rparr>,
      t_log = Logger ''TESTER-000'', t_msgbus = 7, t_cache = 8, t_portfolio = 9,
      t_actors = [3, 4], t_strategies = [2], objs = example_objs, next_obj = 14,
      cache_orders = [[''O-1'', ''BUY'']], cache_positions = [long100],
      cache_accounts = [''SIM'' \<mapsto> [[''1000000 USD'']]], trace = []\<rparr>"

text \<open>The same trader with two faulty units: \<open>on_stop\<close> of the actor 3 raises, and
  \<open>on_reset\<close> of the actor 4.\<close>

definition faulty_trader :: world where
  "faulty_trader =
     example_trader\<lparr>objs := example_objs
       (3 := (example_objs 3)\<lparr>raising := {Stop}\<rparr>,
        4 := (example_objs 4)\<lparr>raising := {Reset}\<rparr>)\<rparr>"

lemmas example_defs =
  example_trader_def example_objs_def new_component_def wired_component_def
  is_in_def is_running_c_def is_disposed_c_def

section \<open>Position ledger: properties\<close>

text \<open>
  The flip scenario of section 8 on the ledger above: LONG 100 at 10, then SELL 150 at
  12. The realized PnL is that of 100 units at (12 - 10); the position is SHORT 50 at
  12, \<open>avg_px_close\<close> cleared, \<open>ts_closed\<close> unset.
\<close>

lemma apply_flip_example:
  "fst (Position_apply long100 fill2) = None \<and>
   side (snd (Position_apply long100 fill2)) = SHORT \<and>
   quantity (snd (Position_apply long100 fill2)) = 50 \<and>
   net_qty (snd (Position_apply long100 fill2)) = - 50 \<and>
   peak_qty (snd (Position_apply long100 fill2)) = 100 \<and>
   avg_px_open (snd (Position_apply long100 fill2)) = 12 \<and>
   avg_px_close (snd (Position_apply long100 fill2)) = None \<and>
   ts_closed (snd (Position_apply long100 fill2)) = None \<and>
   realized_pnl (snd (Position_apply long100 fill2)) = usd 200 \<and>
   execution_ids (snd (Position_apply long100 fill2)) = [''E-1'', ''E-2''] \<and>
   commissions (snd (Position_apply long100 fill2)) ''USD'' = Some 5"
  by (simp add: Position_apply_def long100_def fill2_def fill1_def usd_def
      close_portion_def open_portion_def Let_def is_opposite_side_def calculate_pnl_def
      calculate_pnl_dec_def calculate_points_def side_of_net_def add_commission_def)

text \<open>
  C1. A fill whose execution id was already applied to the position, or whose
  instrument id is not the position's, makes \<open>apply\<close> raise \<open>DataIntegrityError\<close>, and
  the position after the call is the position before it: quantity, net quantity,
  average open price, realized PnL, commissions and event history are all unchanged.
\<close>

theorem apply_rejects_unmodified:
  assumes "fill_execution_id fill \<in> set (execution_ids p)
           \<or> fill_instrument_id fill \<noteq> instrument_id p"
  shows "Position_apply p fill = (Some DataIntegrityError, p)
       \<and> quantity (snd (Position_apply p fill)) = quantity p
       \<and> net_qty (snd (Position_apply p fill)) = net_qty p
       \<and> avg_px_open (snd (Position_apply p fill)) = avg_px_open p
       \<and> realized_pnl (snd (Position_apply p fill)) = realized_pnl p
       \<and> commissions (snd (Position_apply p fill)) = commissions p
       \<and> events (snd (Position_apply p fill)) = events p"
  using assms by (auto simp: Position_apply_def)

theorem apply_rejects_unmodified_witness:
  "fill_execution_id fill1 \<in> set (execution_ids long100)
   \<and> Position_apply long100 fill1 = (Some DataIntegrityError, long100)
   \<and> fill_instrument_id (fill2\<lparr>fill_instrument_id := ''EUR/USD.SIM''\<rparr>)
        \<noteq> instrument_id long100
   \<and> Position_apply long100 (fill2\<lparr>fill_instrument_id := ''EUR/USD.SIM''\<rparr>)
        = (Some DataIntegrityError, long100)"
proof -
  have 1: "fill_execution_id fill1 \<in> set (execution_ids long100)"
    by (simp add: fill1_def long100_def)
  have 2: "fill_instrument_id (fill2\<lparr>fill_instrument_id := ''EUR/USD.SIM''\<rparr>)
        \<noteq> instrument_id long100"
    by (simp add: long100_def)
  show ?thesis
    using 1 2 apply_rejects_unmodified [of fill1 long100]
      apply_rejects_unmodified [of "fill2\<lparr>fill_instrument_id := ''EUR/USD.SIM''\<rparr>" long100]
    by simp
qed

text \<open>
  C2. For positive \<open>avg_open\<close>, \<open>avg_close\<close> and \<open>qty\<close>, \<open>calculate_pnl\<close> returns Money in
  the cost currency whose amount is \<open>(avg_close - avg_open) * qty * multiplier\<close> for a
  standard contract and \<open>qty * multiplier * (1/avg_open - 1/avg_close)\<close> for an inverse
  contract, negated when the side of the position is SHORT.
\<close>

theorem calculate_pnl_formula:
  assumes "0 < avg_open" and "0 < avg_close" and "0 < qty"
  shows "calculate_pnl p avg_open avg_close qty =
     Inr \<lparr>amount =
            (let pnl = (if is_inverse p
                        then qty * multiplier p * (1 / avg_open - 1 / avg_close)
                        else (avg_close - avg_open) * qty * multiplier p)
             in if side p = SHORT then - pnl else pnl),
          currency = cost_currency p\<rparr>"
  using assms
  by (simp add: calculate_pnl_def calculate_pnl_dec_def calculate_points_def
      calculate_points_inverse_def Let_def algebra_simps)

theorem calculate_pnl_formula_witness:
  "calculate_pnl long100 10 12 100 = Inr (usd 200)
   \<and> calculate_pnl (long100\<lparr>side := SHORT\<rparr>) 10 12 100 = Inr (usd (- 200))
   \<and> calculate_pnl short_inverse 10000 8000 100000
        = Inr \<lparr>amount = 5 / 2, currency = ''BTC''\<rparr>"
  using calculate_pnl_formula [of 10 12 100 long100]
    calculate_pnl_formula [of 10 12 100 "long100\<lparr>side := SHORT\<rparr>"]
    calculate_pnl_formula [of 10000 8000 100000 short_inverse]
  by (simp add: long100_def short_inverse_def usd_def Let_def)

section \<open>Registration: properties\<close>

lemma add_strategy_ok:
  assumes "\<not> is_in w r (t_strategies w)" and "\<not> is_running_c (objs w r)"
    and "\<not> is_disposed_c (objs w r)" and "t_state w \<noteq> RUNNING"
  shows "add_strategy w (Some r) =
    (None, w\<lparr>next_obj := Suc (next_obj w),
       objs := (objs w)(r := register (t_id w) (t_portfolio w) (t_msgbus w) (t_cache w)
           \<lparr>clock_obj = next_obj w, clock_cls = clock_cls (t_clock w)\<rparr>
           (get_logger (t_log w)) (objs w r)),
       trace := trace w @ [Register_oms_type r,
          Log INFO ''Registered TradingStrategy {strategy}.'' (Some r)],
       t_strategies := t_strategies w @ [r]\<rparr>)"
  using assms by (simp add: add_strategy_def new_clock_def log_line_def Let_def)

lemma add_actor_ok:
  assumes "\<not> is_in w r (t_actors w)" and "\<not> is_running_c (objs w r)"
    and "\<not> is_disposed_c (objs w r)" and "t_state w \<noteq> RUNNING"
  shows "add_actor w r =
    (None, w\<lparr>next_obj := Suc (next_obj w),
       objs := (objs w)(r := register_base (t_id w) (t_msgbus w) (t_cache w)
           \<lparr>clock_obj = next_obj w, clock_cls = clock_cls (t_clock w)\<rparr>
           (get_logger (t_log w)) (objs w r)),
       trace := trace w @ [Log INFO ''Registered Component {actor}.'' (Some r)],
       t_actors := t_actors w @ [r]\<rparr>)"
  using assms by (simp add: add_actor_def new_clock_def log_line_def Let_def)

text \<open>A unit that is itself in a registry is found there by \<open>in\<close>.\<close>

lemma is_in_member: "r \<in> set rs \<Longrightarrow> is_in w r rs"
  by (auto simp: is_in_def)

text \<open>
  C3. When the trader is RUNNING and the strategy is not registered, not RUNNING and
  not DISPOSED, \<open>add_strategy\<close> raises nothing, logs one error, and changes nothing
  else: the registry is the same list, of the same length, and the strategy is not
  in it.
\<close>

theorem add_strategy_running_trader:
  assumes "t_state w = RUNNING"
    and "\<not> is_in w r (t_strategies w)"
    and "\<not> is_running_c (objs w r)"
    and "\<not> is_disposed_c (objs w r)"
  shows "add_strategy w (Some r) =
           (None, w\<lparr>trace := trace w @
              [Log ERROR ''Cannot add a strategy to a running trader.'' None]\<rparr>)
       \<and> t_strategies (snd (add_strategy w (Some r))) = t_strategies w
       \<and> length (t_strategies (snd (add_strategy w (Some r)))) = length (t_strategies w)
       \<and> \<not> is_in (snd (add_strategy w (Some r))) r
             (t_strategies (snd (add_strategy w (Some r))))
       \<and> r \<notin> set (t_strategies (snd (add_strategy w (Some r))))"
  using assms by (auto simp: add_strategy_def log_line_def is_in_def)

theorem add_strategy_running_trader_witness:
  "t_state example_trader = RUNNING
   \<and> \<not> is_in example_trader 6 (t_strategies example_trader)
   \<and> \<not> is_running_c (objs example_trader 6)
   \<and> \<not> is_disposed_c (objs example_trader 6)
   \<and> fst (add_strategy example_trader (Some 6)) = None
   \<and> trace (snd (add_strategy example_trader (Some 6)))
        = [Log ERROR ''Cannot add a strategy to a running trader.'' None]
   \<and> t_strategies (snd (add_strategy example_trader (Some 6))) = [2]"
  using add_strategy_running_trader [of example_trader 6]
  by (simp add: example_defs)

text \<open>
  C4. \<open>add_strategy\<close> and \<open>add_actor\<close> raise, and leave the session as it was, whenever
  the unit is already in the registry concerned (the unit itself, or one of its id), or
  is RUNNING, or is DISPOSED. Nothing is assumed of the state of the trader.
\<close>

theorem add_rejects:
  "(is_in w r (t_strategies w) \<or> is_running_c (objs w r) \<or> is_disposed_c (objs w r)
      \<longrightarrow> (\<exists>e. add_strategy w (Some r) = (Some e, w)))
   \<and> (is_in w r (t_actors w) \<or> is_running_c (objs w r) \<or> is_disposed_c (objs w r)
      \<longrightarrow> (\<exists>e. add_actor w r = (Some e, w)))"
  by (simp add: add_strategy_def add_actor_def)

theorem add_rejects_witness:
  "is_in example_trader 2 (t_strategies example_trader)
   \<and> fst (add_strategy example_trader (Some 2)) = Some (KeyError ''strategy'')
   \<and> snd (add_strategy example_trader (Some 2)) = example_trader
   \<and> is_disposed_c (objs example_trader 5)
   \<and> fst (add_strategy (example_trader\<lparr>t_state := STOPPED\<rparr>) (Some 5))
        = Some (ValueError ''strategy.state was DISPOSED'')
   \<and> snd (add_strategy (example_trader\<lparr>t_state := STOPPED\<rparr>) (Some 5))
        = example_trader\<lparr>t_state := STOPPED\<rparr>
   \<and> is_running_c (objs example_trader 2)
   \<and> fst (add_actor example_trader 2) = Some (ValueError ''actor.state was RUNNING'')
   \<and> snd (add_actor example_trader 2) = example_trader"
proof -
  have 1: "is_in example_trader 2 (t_strategies example_trader)"
    and 2: "is_disposed_c (objs (example_trader\<lparr>t_state := STOPPED\<rparr>) 5)"
    and 3: "is_running_c (objs example_trader 2)"
    by (simp_all add: example_defs)
  from 1 add_rejects [of example_trader 2]
  obtain e1 where e1: "add_strategy example_trader (Some 2) = (Some e1, example_trader)"
    by blast
  from 2 add_rejects [of "example_trader\<lparr>t_state := STOPPED\<rparr>" 5]
  obtain e2 where e2: "add_strategy (example_trader\<lparr>t_state := STOPPED\<rparr>) (Some 5)
      = (Some e2, example_trader\<lparr>t_state := STOPPED\<rparr>)"
    by blast
  from 3 add_rejects [of example_trader 2]
  obtain e3 where e3: "add_actor example_trader 2 = (Some e3, example_trader)"
    by blast
  have "fst (add_strategy example_trader (Some 2)) = Some (KeyError ''strategy'')"
    "fst (add_strategy (example_trader\<lparr>t_state := STOPPED\<rparr>) (Some 5))
        = Some (ValueError ''strategy.state was DISPOSED'')"
    "fst (add_actor example_trader 2) = Some (ValueError ''actor.state was RUNNING'')"
    by (simp_all add: add_strategy_def add_actor_def example_defs)
  with 1 2 3 e1 e2 e3 show ?thesis by simp
qed




text \<open>Registration keeps every held clock constructed: \<open>clocks_allocated\<close> holds
  along any run of registrations that starts with it.\<close>

lemma clocks_allocated_log_line:
  "clocks_allocated (log_line lv txt who w) = clocks_allocated w"
  by (simp add: clocks_allocated_def log_line_def split: option.split)

lemma clocks_allocated_registered:
  assumes "clocks_allocated w" and "c_clock c = Some \<lparr>clock_obj = next_obj w, clock_cls = cls\<rparr>"
    and "set (t_actors w' @ t_strategies w') \<subseteq> insert r (set (t_actors w @ t_strategies w))"
    and "objs w' = (objs w)(r := c)" and "t_clock w' = t_clock w"
    and "next_obj w' = Suc (next_obj w)"
  shows "clocks_allocated w'"
proof -
  have "case c_clock (objs w' x) of None \<Rightarrow> True | Some k \<Rightarrow> clock_obj k < next_obj w'"
    if "x \<in> set (t_actors w' @ t_strategies w')" for x
  proof (cases "x = r")
    case True
    then show ?thesis using assms(2,4,6) by simp
  next
    case False
    with that assms(3) have "x \<in> set (t_actors w @ t_strategies w)" by auto
    with assms(1) have "case c_clock (objs w x) of None \<Rightarrow> True
        | Some k \<Rightarrow> clock_obj k < next_obj w"
      unfolding clocks_allocated_def by blast
    with False show ?thesis
      using assms(4,6) by (simp split: option.splits)
  qed
  moreover have "clock_obj (t_clock w') < next_obj w'"
    using assms(1,5,6) by (simp add: clocks_allocated_def)
  ultimately show ?thesis
    unfolding clocks_allocated_def by blast
qed

lemma clocks_allocated_add_strategy:
  assumes "clocks_allocated w"
  shows "clocks_allocated (snd (add_strategy w s))"
proof (cases s)
  case None
  with assms show ?thesis by (simp add: add_strategy_def)
next
  case (Some r)
  show ?thesis
  proof (cases "\<not> is_in w r (t_strategies w) \<and> \<not> is_running_c (objs w r)
      \<and> \<not> is_disposed_c (objs w r) \<and> t_state w \<noteq> RUNNING")
    case True
    show ?thesis
      unfolding Some
      by (rule clocks_allocated_registered [OF assms, where r = r
            and cls = "clock_cls (t_clock w)"
            and c = "register (t_id w) (t_portfolio w) (t_msgbus w) (t_cache w)
              \<lparr>clock_obj = next_obj w, clock_cls = clock_cls (t_clock w)\<rparr>
              (get_logger (t_log w)) (objs w r)"])
        (use True in \<open>auto simp: add_strategy_ok register_def\<close>)
  next
    case False
    then have "snd (add_strategy w (Some r)) = w
        \<or> snd (add_strategy w (Some r))
            = log_line ERROR ''Cannot add a strategy to a running trader.'' None w"
      by (auto simp: add_strategy_def)
    with assms show ?thesis
      unfolding Some by (auto simp: clocks_allocated_log_line)
  qed
qed

lemma clocks_allocated_add_actor:
  assumes "clocks_allocated w"
  shows "clocks_allocated (snd (add_actor w r))"
proof (cases "\<not> is_in w r (t_actors w) \<and> \<not> is_running_c (objs w r)
    \<and> \<not> is_disposed_c (objs w r) \<and> t_state w \<noteq> RUNNING")
  case True
  show ?thesis
    by (rule clocks_allocated_registered [OF assms, where r = r
          and cls = "clock_cls (t_clock w)"
          and c = "register_base (t_id w) (t_msgbus w) (t_cache w)
            \<lparr>clock_obj = next_obj w, clock_cls = clock_cls (t_clock w)\<rparr>
            (get_logger (t_log w)) (objs w r)"])
      (use True in \<open>auto simp: add_actor_ok register_base_def\<close>)
next
  case False
  then have "snd (add_actor w r) = w
      \<or> snd (add_actor w r)
          = log_line ERROR ''Cannot add component to a running trader.'' None w"
    by (auto simp: add_actor_def)
  with assms show ?thesis
    by (auto simp: clocks_allocated_log_line)
qed

section \<open>Lifecycle cascade: properties\<close>

lemma trace_log_line: "trace (log_line lv txt who w) = trace w @ [Log lv txt who]"
  by (simp add: log_line_def)

lemma verb_of_raising: "raising (snd (verb_of v c)) = raising c"
  by (cases v) (simp_all add: verb_of_def Component_start_def Component_stop_def
      Component_reset_def)

lemma verb_of_quiet:
  assumes "\<not> raises v c"
  shows "fst (verb_of v c) = None" and "\<not> raises v (snd (verb_of v c))"
  using assms
  by (cases v; simp add: raises_def verb_of_def Component_start_def Component_stop_def
      Component_reset_def)+

lemma verb_of_raises:
  assumes "raises v c"
  shows "fst (verb_of v c) = Some (HookFailure v)"
  using assms
  by (cases v; simp add: raises_def verb_of_def Component_start_def Component_stop_def
      Component_reset_def)

lemma call_snd:
  "snd (call v r w) =
     w\<lparr>objs := (objs w)(r := snd (verb_of v (objs w r))), trace := trace w @ [Call r v]\<rparr>"
  by (simp add: call_def split: prod.split)

lemma call_fst: "fst (call v r w) = fst (verb_of v (objs w r))"
  by (simp add: call_def split: prod.split)

lemma call_quiet:
  assumes "\<not> raises v (objs w r)"
  shows "call v r w =
     (None, w\<lparr>objs := (objs w)(r := snd (verb_of v (objs w r))),
              trace := trace w @ [Call r v]\<rparr>)"
  using verb_of_quiet(1) [OF assms] call_snd [of v r w] call_fst [of v r w]
  by (simp add: prod_eq_iff)

lemma call_raises:
  assumes "raises v (objs w r)"
  shows "fst (call v r w) = Some (HookFailure v)"
  using verb_of_raises [OF assms] by (simp add: call_fst)

lemma quiet_call:
  assumes "\<not> raises v (objs w r)" and "quiet v w xs"
  shows "quiet v (snd (call v r w)) xs"
  using assms verb_of_quiet(2) [OF assms(1)]
  by (simp add: quiet_def call_snd)

lemma quiet_Cons: "quiet v w (r # rs) = (\<not> raises v (objs w r) \<and> quiet v w rs)"
  by (simp add: quiet_def)

lemma quiet_append: "quiet v w (xs @ ys) = (quiet v w xs \<and> quiet v w ys)"
  by (auto simp: quiet_def)

subsection \<open>The loop of \<open>_start\<close> and \<open>_reset\<close>\<close>

lemma call_each_Cons_None:
  "call v r w = (None, w') \<Longrightarrow> call_each v (r # rs) w = call_each v rs w'"
  by simp

lemma call_each_Cons_Some:
  "fst (call v r w) = Some e \<Longrightarrow> fst (call_each v (r # rs) w) = Some e"
  by (cases "call v r w") auto

lemma call_each_actors: "t_actors (snd (call_each v rs w)) = t_actors w"
proof (induction rs arbitrary: w)
  case Nil
  show ?case by simp
next
  case (Cons r rs)
  show ?case
  proof (cases "call v r w")
    case (Pair e w')
    then have "t_actors w' = t_actors w"
      using call_snd [of v r w] by simp
    with Pair Cons [of w'] show ?thesis
      by (cases e) simp_all
  qed
qed

lemma call_each_strategies: "t_strategies (snd (call_each v rs w)) = t_strategies w"
proof (induction rs arbitrary: w)
  case Nil
  show ?case by simp
next
  case (Cons r rs)
  show ?case
  proof (cases "call v r w")
    case (Pair e w')
    then have "t_strategies w' = t_strategies w"
      using call_snd [of v r w] by simp
    with Pair Cons [of w'] show ?thesis
      by (cases e) simp_all
  qed
qed

lemma call_each_objs:
  "x \<notin> set rs \<Longrightarrow> objs (snd (call_each v rs w)) x = objs w x"
proof (induction rs arbitrary: w)
  case Nil
  show ?case by simp
next
  case (Cons r rs)
  show ?case
  proof (cases "call v r w")
    case (Pair e w')
    then have "objs w' x = objs w x"
      using call_snd [of v r w] Cons.prems by simp
    with Pair Cons.IH [of w'] Cons.prems show ?thesis
      by (cases e) simp_all
  qed
qed

lemma call_each_quiet:
  assumes "quiet v w rs"
  shows "fst (call_each v rs w) = None
       \<and> trace (snd (call_each v rs w)) = trace w @ map (\<lambda>r. Call r v) rs
       \<and> (\<forall>xs. quiet v w xs \<longrightarrow> quiet v (snd (call_each v rs w)) xs)"
  using assms
proof (induction rs arbitrary: w)
  case Nil
  show ?case by simp
next
  case (Cons r rs)
  from Cons.prems have r: "\<not> raises v (objs w r)" and rs: "quiet v w rs"
    by (simp_all add: quiet_Cons)
  let ?w = "w\<lparr>objs := (objs w)(r := snd (verb_of v (objs w r))),
              trace := trace w @ [Call r v]\<rparr>"
  have q: "quiet v ?w xs" if "quiet v w xs" for xs
    using quiet_call [OF r that] by (simp add: call_snd)
  have e: "call_each v (r # rs) w = call_each v rs ?w"
    by (rule call_each_Cons_None [OF call_quiet [OF r]])
  from Cons.IH [OF q [OF rs]] q show ?case
    unfolding e by simp
qed

lemma call_each_raises:
  assumes "x \<in> set rs" and "raises v (objs w x)"
  shows "fst (call_each v rs w) \<noteq> None"
  using assms
proof (induction rs arbitrary: w)
  case Nil
  then show ?case by simp
next
  case (Cons r rs)
  show ?case
  proof (cases "raises v (objs w r)")
    case True
    from call_each_Cons_Some [OF call_raises [OF True]] show ?thesis
      by simp
  next
    case False
    let ?w = "w\<lparr>objs := (objs w)(r := snd (verb_of v (objs w r))),
                trace := trace w @ [Call r v]\<rparr>"
    have e: "call_each v (r # rs) w = call_each v rs ?w"
      by (rule call_each_Cons_None [OF call_quiet [OF False]])
    from False Cons.prems have x: "x \<in> set rs" "x \<noteq> r" by auto
    then have "raises v (objs ?w x)"
      using Cons.prems(2) by simp
    from Cons.IH [OF x(1) this] show ?thesis
      unfolding e .
  qed
qed

text \<open>With a strategy loaded and no \<open>start()\<close> raising, \<open>_start\<close> starts the actors, then
  the strategies.\<close>

lemma Trader_start_calls:
  assumes "t_strategies w \<noteq> []" and "quiet Start w (t_actors w @ t_strategies w)"
  shows "fst (Trader_start w) = None"
    and "trace (snd (Trader_start w)) =
           trace w @ map (\<lambda>r. Call r Start) (t_actors w @ t_strategies w)"
proof -
  from assms(2) have a: "quiet Start w (t_actors w)" and s: "quiet Start w (t_strategies w)"
    by (simp_all add: quiet_append)
  obtain w1 where 1: "call_each Start (t_actors w) w = (None, w1)"
    using call_each_quiet [OF a] by (cases "call_each Start (t_actors w) w") auto
  from call_each_quiet [OF a] s
  have 2: "trace w1 = trace w @ map (\<lambda>r. Call r Start) (t_actors w)"
    and 3: "quiet Start w1 (t_strategies w)"
    unfolding 1 by simp_all
  have 4: "t_strategies w1 = t_strategies w"
    using call_each_strategies [of Start "t_actors w" w] unfolding 1 by simp
  have e: "Trader_start w = call_each Start (t_strategies w) w1"
    using assms(1) by (simp add: Trader_start_def 1 4)
  from call_each_quiet [OF 3] 2
  show "fst (Trader_start w) = None"
    and "trace (snd (Trader_start w)) =
           trace w @ map (\<lambda>r. Call r Start) (t_actors w @ t_strategies w)"
    unfolding e by simp_all
qed

text \<open>
  C6. With no strategy registered, \<open>_start\<close> raises nothing, logs one error and does
  nothing else: the session is otherwise as before, no unit has changed, and nothing
  but the log line was added to the record of calls, so \<open>start()\<close> was invoked on no
  actor and on no strategy.
\<close>

theorem Trader_start_no_strategies:
  assumes "t_strategies w = []"
  shows "Trader_start w =
           (None, w\<lparr>trace := trace w @ [Log ERROR ''No strategies loaded.'' None]\<rparr>)
       \<and> objs (snd (Trader_start w)) = objs w
       \<and> (\<forall>r v. Call r v \<notin> set (drop (length (trace w)) (trace (snd (Trader_start w)))))"
  using assms by (simp add: Trader_start_def log_line_def)

theorem Trader_start_no_strategies_witness:
  "t_strategies (example_trader\<lparr>t_strategies := []\<rparr>) = []
   \<and> t_actors (example_trader\<lparr>t_strategies := []\<rparr>) = [3, 4]
   \<and> fst (Trader_start (example_trader\<lparr>t_strategies := []\<rparr>)) = None
   \<and> trace (snd (Trader_start (example_trader\<lparr>t_strategies := []\<rparr>)))
       = [Log ERROR ''No strategies loaded.'' None]
   \<and> objs (snd (Trader_start (example_trader\<lparr>t_strategies := []\<rparr>))) = example_objs"
  using Trader_start_no_strategies [of "example_trader\<lparr>t_strategies := []\<rparr>"]
  by (simp add: example_trader_def)

subsection \<open>The loop of \<open>_stop\<close>\<close>

lemma raises_Stop: "raises Stop c = (is_running_c c \<and> Stop \<in> raising c)"
  by (auto simp: raises_def is_running_c_def)

lemma raises_Reset: "raises Reset c = (cstate c = STOPPED \<and> Reset \<in> raising c)"
  by (auto simp: raises_def)

lemma running_log_line: "running (log_line lv txt who w) = running w"
  by (simp add: running_def log_line_def)

lemma call_Stop_quiet:
  assumes "r \<in> running w" and "\<not> raises Stop (objs w r)"
  shows "call Stop r w =
     (None, w\<lparr>objs := (objs w)(r := (objs w r)\<lparr>cstate := STOPPED\<rparr>),
              trace := trace w @ [Call r Stop]\<rparr>)"
  using assms
  by (simp add: call_quiet) (simp add: verb_of_def Component_stop_def running_def
      raises_Stop is_running_c_def)

lemma stop_each_running:
  "r \<in> running w \<Longrightarrow> call Stop r w = (None, w') \<Longrightarrow>
   stop_each txt (r # rs) w = stop_each txt rs w'"
  by (simp add: running_def)

lemma stop_each_running_raises:
  "r \<in> running w \<Longrightarrow> fst (call Stop r w) = Some e \<Longrightarrow>
   fst (stop_each txt (r # rs) w) = Some e"
  by (cases "call Stop r w") (auto simp: running_def)

lemma stop_each_not_running:
  "r \<notin> running w \<Longrightarrow>
   stop_each txt (r # rs) w = stop_each txt rs (log_line WARNING txt (Some r) w)"
  by (simp add: running_def)

lemma stop_each_actors: "t_actors (snd (stop_each txt rs w)) = t_actors w"
proof (induction rs arbitrary: w)
  case Nil
  show ?case by simp
next
  case (Cons r rs)
  show ?case
  proof (cases "call Stop r w")
    case (Pair e w')
    then have "t_actors w' = t_actors w"
      using call_snd [of Stop r w] by simp
    with Pair Cons [of w'] Cons [of "log_line WARNING txt (Some r) w"] show ?thesis
      by (cases e) (simp_all add: log_line_def)
  qed
qed

lemma stop_each_strategies: "t_strategies (snd (stop_each txt rs w)) = t_strategies w"
proof (induction rs arbitrary: w)
  case Nil
  show ?case by simp
next
  case (Cons r rs)
  show ?case
  proof (cases "call Stop r w")
    case (Pair e w')
    then have "t_strategies w' = t_strategies w"
      using call_snd [of Stop r w] by simp
    with Pair Cons [of w'] Cons [of "log_line WARNING txt (Some r) w"] show ?thesis
      by (cases e) (simp_all add: log_line_def)
  qed
qed

lemma stop_each_objs:
  "x \<notin> set rs \<Longrightarrow> objs (snd (stop_each txt rs w)) x = objs w x"
proof (induction rs arbitrary: w)
  case Nil
  show ?case by simp
next
  case (Cons r rs)
  show ?case
  proof (cases "call Stop r w")
    case (Pair e w')
    then have "objs w' x = objs w x"
      using call_snd [of Stop r w] Cons.prems by simp
    with Pair Cons.IH [of w'] Cons.IH [of "log_line WARNING txt (Some r) w"] Cons.prems
    show ?thesis
      by (cases e) (simp_all add: log_line_def)
  qed
qed

lemma stop_each_quiet:
  assumes "quiet Stop w rs"
  shows "fst (stop_each txt rs w) = None
       \<and> trace (snd (stop_each txt rs w)) = trace w @ stops txt rs (running w)
       \<and> running (snd (stop_each txt rs w)) = running w - set rs
       \<and> (\<forall>xs. quiet Stop w xs \<longrightarrow> quiet Stop (snd (stop_each txt rs w)) xs)"
  using assms
proof (induction rs arbitrary: w)
  case Nil
  show ?case by simp
next
  case (Cons r rs)
  from Cons.prems have r: "\<not> raises Stop (objs w r)" and rs: "quiet Stop w rs"
    by (simp_all add: quiet_Cons)
  show ?case
  proof (cases "r \<in> running w")
    case True
    define w1 where "w1 = w\<lparr>objs := (objs w)(r := (objs w r)\<lparr>cstate := STOPPED\<rparr>),
                trace := trace w @ [Call r Stop]\<rparr>"
    have e: "stop_each txt (r # rs) w = stop_each txt rs w1"
      unfolding w1_def by (rule stop_each_running [OF True call_Stop_quiet [OF True r]])
    have q: "quiet Stop w1 xs" if "quiet Stop w xs" for xs
      unfolding quiet_def
    proof
      fix x assume "x \<in> set xs"
      with that have "\<not> raises Stop (objs w x)" by (simp add: quiet_def)
      then show "\<not> raises Stop (objs w1 x)"
        by (cases "x = r") (simp_all add: w1_def raises_def)
    qed
    have run: "running w1 = running w - {r}"
      by (auto simp: w1_def running_def is_running_c_def)
    have tr: "trace w1 = trace w @ [Call r Stop]"
      by (simp add: w1_def)
    have st: "stops txt (r # rs) (running w) = Call r Stop # stops txt rs (running w - {r})"
      using True by simp
    have set_eq: "running w - {r} - set rs = running w - set (r # rs)" by auto
    note ih = Cons.IH [OF q [OF rs]]
    have 1: "fst (stop_each txt (r # rs) w) = None"
      unfolding e using ih by blast
    have 2: "trace (snd (stop_each txt (r # rs) w)) = trace w @ stops txt (r # rs) (running w)"
      unfolding e st using ih by (simp add: tr run)
    have 3: "running (snd (stop_each txt (r # rs) w)) = running w - set (r # rs)"
      unfolding e using ih set_eq by (simp add: run)
    have 4: "quiet Stop (snd (stop_each txt (r # rs) w)) xs" if "quiet Stop w xs" for xs
      unfolding e using ih q [OF that] by blast
    from 1 2 3 4 show ?thesis by blast
  next
    case False
    define w1 where "w1 = log_line WARNING txt (Some r) w"
    have e: "stop_each txt (r # rs) w = stop_each txt rs w1"
      unfolding w1_def by (rule stop_each_not_running [OF False])
    have ob: "objs w1 = objs w"
      by (simp add: w1_def log_line_def)
    have q: "quiet Stop w1 xs" if "quiet Stop w xs" for xs
      using that by (simp add: quiet_def ob)
    have run: "running w1 = running w"
      by (simp add: w1_def running_log_line)
    have tr: "trace w1 = trace w @ [Log WARNING txt (Some r)]"
      by (simp add: w1_def trace_log_line)
    from False have R: "running w - {r} = running w" by auto
    have st: "stops txt (r # rs) (running w)
        = Log WARNING txt (Some r) # stops txt rs (running w)"
      using False by (simp add: R)
    from False have set_eq: "running w - set rs = running w - set (r # rs)" by auto
    note ih = Cons.IH [OF q [OF rs]]
    have 1: "fst (stop_each txt (r # rs) w) = None"
      unfolding e using ih by blast
    have 2: "trace (snd (stop_each txt (r # rs) w)) = trace w @ stops txt (r # rs) (running w)"
      unfolding e st using ih by (simp add: tr run)
    have 3: "running (snd (stop_each txt (r # rs) w)) = running w - set (r # rs)"
      unfolding e using ih set_eq by (simp add: run)
    have 4: "quiet Stop (snd (stop_each txt (r # rs) w)) xs" if "quiet Stop w xs" for xs
      unfolding e using ih q [OF that] by blast
    from 1 2 3 4 show ?thesis by blast
  qed
qed

lemma stop_each_raises:
  assumes "x \<in> set rs" and "raises Stop (objs w x)"
  shows "fst (stop_each txt rs w) \<noteq> None"
  using assms
proof (induction rs arbitrary: w)
  case Nil
  then show ?case by simp
next
  case (Cons r rs)
  show ?case
  proof (cases "raises Stop (objs w r)")
    case True
    then have "r \<in> running w" by (simp add: raises_Stop running_def)
    from stop_each_running_raises [OF this call_raises [OF True]] show ?thesis
      by simp
  next
    case False
    from False Cons.prems have x: "x \<in> set rs" "x \<noteq> r" by auto
    show ?thesis
    proof (cases "r \<in> running w")
      case True
      let ?w = "w\<lparr>objs := (objs w)(r := (objs w r)\<lparr>cstate := STOPPED\<rparr>),
                  trace := trace w @ [Call r Stop]\<rparr>"
      have e: "stop_each txt (r # rs) w = stop_each txt rs ?w"
        by (rule stop_each_running [OF True call_Stop_quiet [OF True False]])
      have "raises Stop (objs ?w x)"
        using x Cons.prems(2) by simp
      from Cons.IH [OF x(1) this] show ?thesis unfolding e .
    next
      case F: False
      let ?w = "log_line WARNING txt (Some r) w"
      have e: "stop_each txt (r # rs) w = stop_each txt rs ?w"
        by (rule stop_each_not_running [OF F])
      have "raises Stop (objs ?w x)"
        using Cons.prems(2) by (simp add: log_line_def)
      from Cons.IH [OF x(1) this] show ?thesis unfolding e .
    qed
  qed
qed

lemma length_stops: "length (stops txt rs R) = length rs"
  by (induction rs arbitrary: R) simp_all

lemma count_stops:
  "count_list (stops txt rs R) (Call r Stop) = (if r \<in> R \<and> r \<in> set rs then 1 else 0)"
  by (induction rs arbitrary: R) auto

lemma nth_stops:
  "i < length rs \<Longrightarrow>
   stops txt rs R ! i =
     (if rs ! i \<in> R - set (take i rs) then Call (rs ! i) Stop
      else Log WARNING txt (Some (rs ! i)))"
proof (induction rs arbitrary: R i)
  case Nil
  then show ?case by simp
next
  case (Cons r rs)
  show ?case
  proof (cases i)
    case 0
    then show ?thesis by simp
  next
    case (Suc j)
    with Cons.prems have j: "j < length rs" by simp
    have "R - {r} - set (take j rs) = R - set (take (Suc j) (r # rs))" by auto
    then show ?thesis
      using Cons.IH [OF j, of "R - {r}"] Suc by simp
  qed
qed

lemma nth_stops_append:
  assumes "i < length (xs @ ys)"
  shows "(stops ta xs R @ stops ts ys (R - set xs)) ! i =
     (if (xs @ ys) ! i \<in> R - set (take i (xs @ ys)) then Call ((xs @ ys) ! i) Stop
      else Log WARNING (if i < length xs then ta else ts) (Some ((xs @ ys) ! i)))"
proof (cases "i < length xs")
  case True
  then show ?thesis
    by (simp add: nth_append length_stops nth_stops)
next
  case False
  define j where "j = i - length xs"
  from False assms have j: "j < length ys" by (simp add: j_def)
  have "R - set xs - set (take j ys) = R - set (take i (xs @ ys))"
    using False by (auto simp: j_def)
  then show ?thesis
    using False j nth_stops [OF j, of ts "R - set xs"]
    by (simp add: nth_append length_stops j_def)
qed

lemma count_stops_append:
  "count_list (stops ta xs R @ stops ts ys (R - set xs)) (Call r Stop) =
     (if r \<in> R \<and> r \<in> set (xs @ ys) then 1 else 0)"
  by (simp add: count_stops)

text \<open>\<open>_stop\<close> returns exactly when no \<open>stop()\<close> it invokes raises.\<close>

lemma Trader_stop_quiet:
  assumes "quiet Stop w (t_actors w @ t_strategies w)"
  shows "fst (Trader_stop w) = None"
    and "trace (snd (Trader_stop w)) =
       trace w @ stops ''{actor} already stopped.'' (t_actors w) (running w)
         @ stops ''{strategy} already stopped.'' (t_strategies w)
             (running w - set (t_actors w))"
    and "running (snd (Trader_stop w)) = running w - set (t_actors w @ t_strategies w)"
proof -
  let ?ta = "''{actor} already stopped.''" and ?ts = "''{strategy} already stopped.''"
  from assms have a: "quiet Stop w (t_actors w)" and s: "quiet Stop w (t_strategies w)"
    by (simp_all add: quiet_append)
  obtain w1 where 1: "stop_each ?ta (t_actors w) w = (None, w1)"
    using stop_each_quiet [OF a, of ?ta] by (cases "stop_each ?ta (t_actors w) w") auto
  from stop_each_quiet [OF a, of ?ta] s
  have 2: "trace w1 = trace w @ stops ?ta (t_actors w) (running w)"
    and 3: "running w1 = running w - set (t_actors w)"
    and 4: "quiet Stop w1 (t_strategies w)"
    unfolding 1 by simp_all
  have 5: "t_strategies w1 = t_strategies w"
    using stop_each_strategies [of ?ta "t_actors w" w] unfolding 1 by simp
  have e: "Trader_stop w = stop_each ?ts (t_strategies w) w1"
    by (simp add: Trader_stop_def 1 5)
  from stop_each_quiet [OF 4, of ?ts] 2 3
  show "fst (Trader_stop w) = None"
    and "trace (snd (Trader_stop w)) =
       trace w @ stops ?ta (t_actors w) (running w)
         @ stops ?ts (t_strategies w) (running w - set (t_actors w))"
    and "running (snd (Trader_stop w)) = running w - set (t_actors w @ t_strategies w)"
    unfolding e by auto
qed

lemma Trader_stop_raises:
  assumes "x \<in> set (t_actors w @ t_strategies w)" and "raises Stop (objs w x)"
  shows "fst (Trader_stop w) \<noteq> None"
proof (cases "x \<in> set (t_actors w)")
  case True
  from stop_each_raises [OF True assms(2), of "''{actor} already stopped.''"]
  show ?thesis
    by (auto simp: Trader_stop_def split: prod.split option.split)
next
  case False
  with assms(1) have x: "x \<in> set (t_strategies w)" by simp
  show ?thesis
  proof (cases "stop_each ''{actor} already stopped.'' (t_actors w) w")
    case (Pair e w1)
    show ?thesis
    proof (cases e)
      case None
      have "objs w1 x = objs w x" "t_strategies w1 = t_strategies w"
        using stop_each_objs [OF False, of "''{actor} already stopped.''" w]
          stop_each_strategies [of "''{actor} already stopped.''" "t_actors w" w]
        unfolding Pair by simp_all
      with x assms(2) stop_each_raises [of x "t_strategies w1" w1]
      show ?thesis
        by (simp add: Trader_stop_def Pair None)
    next
      case (Some a)
      then show ?thesis by (simp add: Trader_stop_def Pair)
    qed
  qed
qed

lemma Trader_stop_registries:
  "t_actors (snd (Trader_stop w)) = t_actors w
   \<and> t_strategies (snd (Trader_stop w)) = t_strategies w"
proof (cases "stop_each ''{actor} already stopped.'' (t_actors w) w")
  case (Pair e w1)
  have "t_actors w1 = t_actors w" "t_strategies w1 = t_strategies w"
    using stop_each_actors [of "''{actor} already stopped.''" "t_actors w" w]
      stop_each_strategies [of "''{actor} already stopped.''" "t_actors w" w]
    unfolding Pair by simp_all
  then show ?thesis
    using stop_each_actors [of "''{strategy} already stopped.''" "t_strategies w" w1]
      stop_each_strategies [of "''{strategy} already stopped.''" "t_strategies w" w1]
    by (cases e) (simp_all add: Trader_stop_def Pair)
qed

text \<open>
  C7. \<open>_stop\<close> returns exactly when no \<open>stop()\<close> it invokes raises, that is, when
  the \<open>on_stop\<close> hook of no running registered unit raises. When it returns, it has
  added one event per registered unit to the record of calls, the actors first, then
  the strategies, each in registration order: \<open>stop()\<close> on the unit when it is running
  as its turn comes (it was running before \<open>_stop\<close> and is met for the first time), a
  warning otherwise, after which the cascade goes on. So \<open>stop()\<close> has been invoked
  exactly once on every registered unit that was running, and never on any other unit;
  afterwards no registered unit is running. The registries are as before in any case.
\<close>

theorem Trader_stop_cascade:
  "(fst (Trader_stop w) = None \<longleftrightarrow>
      (\<forall>r \<in> set (t_actors w @ t_strategies w).
         is_running_c (objs w r) \<longrightarrow> Stop \<notin> raising (objs w r)))
   \<and> (fst (Trader_stop w) = None \<longrightarrow>
      (\<exists>es. trace (snd (Trader_stop w)) = trace w @ es
         \<and> length es = length (t_actors w @ t_strategies w)
         \<and> (\<forall>i < length es.
              es ! i =
                (if is_running_c (objs w ((t_actors w @ t_strategies w) ! i))
                    \<and> (t_actors w @ t_strategies w) ! i
                         \<notin> set (take i (t_actors w @ t_strategies w))
                 then Call ((t_actors w @ t_strategies w) ! i) Stop
                 else Log WARNING
                        (if i < length (t_actors w) then ''{actor} already stopped.''
                         else ''{strategy} already stopped.'')
                        (Some ((t_actors w @ t_strategies w) ! i))))
         \<and> (\<forall>r. count_list es (Call r Stop) =
                (if r \<in> set (t_actors w @ t_strategies w) \<and> is_running_c (objs w r)
                 then 1 else 0))
         \<and> (\<forall>r \<in> set (t_actors w @ t_strategies w).
                \<not> is_running_c (objs (snd (Trader_stop w)) r))))
   \<and> t_actors (snd (Trader_stop w)) = t_actors w
   \<and> t_strategies (snd (Trader_stop w)) = t_strategies w"
proof -
  let ?xs = "t_actors w" and ?ys = "t_strategies w"
  let ?es = "stops ''{actor} already stopped.'' ?xs (running w)
       @ stops ''{strategy} already stopped.'' ?ys (running w - set ?xs)"
  let ?Q = "\<forall>r \<in> set (?xs @ ?ys). is_running_c (objs w r) \<longrightarrow> Stop \<notin> raising (objs w r)"
  have Q: "?Q = quiet Stop w (?xs @ ?ys)"
    by (auto simp: quiet_def raises_Stop)
  have A: "fst (Trader_stop w) = None \<longleftrightarrow> ?Q"
  proof
    assume n: "fst (Trader_stop w) = None"
    show ?Q
    proof (rule ccontr)
      assume "\<not> ?Q"
      then obtain x where "x \<in> set (?xs @ ?ys)" "raises Stop (objs w x)"
        by (auto simp: raises_Stop)
      from Trader_stop_raises [OF this] n show False by simp
    qed
  next
    assume ?Q
    then show "fst (Trader_stop w) = None"
      unfolding Q by (rule Trader_stop_quiet(1))
  qed
  have B: "\<exists>es. trace (snd (Trader_stop w)) = trace w @ es
         \<and> length es = length (?xs @ ?ys)
         \<and> (\<forall>i < length es.
              es ! i =
                (if is_running_c (objs w ((?xs @ ?ys) ! i))
                    \<and> (?xs @ ?ys) ! i \<notin> set (take i (?xs @ ?ys))
                 then Call ((?xs @ ?ys) ! i) Stop
                 else Log WARNING
                        (if i < length ?xs then ''{actor} already stopped.''
                         else ''{strategy} already stopped.'')
                        (Some ((?xs @ ?ys) ! i))))
         \<and> (\<forall>r. count_list es (Call r Stop) =
                (if r \<in> set (?xs @ ?ys) \<and> is_running_c (objs w r) then 1 else 0))
         \<and> (\<forall>r \<in> set (?xs @ ?ys). \<not> is_running_c (objs (snd (Trader_stop w)) r))"
    if n: "fst (Trader_stop w) = None"
  proof -
    from n A have q: "quiet Stop w (?xs @ ?ys)" unfolding Q by simp
    have 1: "trace (snd (Trader_stop w)) = trace w @ ?es"
      using Trader_stop_quiet(2) [OF q] by simp
    have 2: "length ?es = length (?xs @ ?ys)"
      by (simp add: length_stops)
    have 3: "?es ! i =
            (if is_running_c (objs w ((?xs @ ?ys) ! i))
                \<and> (?xs @ ?ys) ! i \<notin> set (take i (?xs @ ?ys))
             then Call ((?xs @ ?ys) ! i) Stop
             else Log WARNING
                    (if i < length ?xs then ''{actor} already stopped.''
                     else ''{strategy} already stopped.'')
                    (Some ((?xs @ ?ys) ! i)))" if "i < length ?es" for i
    proof -
      from that have "i < length (?xs @ ?ys)" by (simp add: length_stops)
      from nth_stops_append [OF this, of "''{actor} already stopped.''" "running w"
          "''{strategy} already stopped.''"]
      show ?thesis by (simp add: running_def)
    qed
    have 4: "count_list ?es (Call r Stop) =
            (if r \<in> set (?xs @ ?ys) \<and> is_running_c (objs w r) then 1 else 0)" for r
      unfolding count_stops_append by (simp add: running_def)
    have 5: "\<not> is_running_c (objs (snd (Trader_stop w)) r)" if "r \<in> set (?xs @ ?ys)" for r
      using Trader_stop_quiet(3) [OF q] that by (auto simp: running_def)
    from 1 2 3 4 5 show ?thesis by blast
  qed
  from A B Trader_stop_registries [of w] show ?thesis by blast
qed

theorem Trader_stop_cascade_witness:
  "fst (Trader_stop (example_trader\<lparr>t_strategies := [2, 3]\<rparr>)) = None
   \<and> trace (snd (Trader_stop (example_trader\<lparr>t_strategies := [2, 3]\<rparr>))) =
     [Call 3 Stop, Log WARNING ''{actor} already stopped.'' (Some 4),
      Call 2 Stop, Log WARNING ''{strategy} already stopped.'' (Some 3)]
   \<and> is_running_c (objs example_trader 3)
   \<and> count_list (trace (snd (Trader_stop (example_trader\<lparr>t_strategies := [2, 3]\<rparr>))))
        (Call 3 Stop) = 1
   \<and> \<not> is_running_c (objs example_trader 4)
   \<and> count_list (trace (snd (Trader_stop (example_trader\<lparr>t_strategies := [2, 3]\<rparr>))))
        (Call 4 Stop) = 0
   \<and> \<not> is_running_c (objs (snd (Trader_stop (example_trader\<lparr>t_strategies := [2, 3]\<rparr>))) 2)"
proof -
  let ?w = "example_trader\<lparr>t_strategies := [2, 3]\<rparr>"
  have regs: "t_actors ?w @ t_strategies ?w = [3, 4, 2, 3]" and tr: "trace ?w = []"
    and ob: "objs ?w = objs example_trader"
    by (simp_all add: example_trader_def)
  have run: "is_running_c (objs example_trader 3)" "\<not> is_running_c (objs example_trader 4)"
    "is_running_c (objs example_trader 2)"
    by (simp_all add: example_defs)
  have q: "\<forall>r \<in> set [3, 4, 2, 3].
      is_running_c (objs example_trader r) \<longrightarrow> Stop \<notin> raising (objs example_trader r)"
    by (simp add: example_defs)
  from Trader_stop_cascade [of ?w] q
  have n: "fst (Trader_stop ?w) = None"
    unfolding regs ob by blast
  with Trader_stop_cascade [of ?w] obtain es where
    es: "trace (snd (Trader_stop ?w)) = es"
    and cnt: "\<And>r. count_list es (Call r Stop) =
        (if r \<in> set [3, 4, 2, 3] \<and> is_running_c (objs example_trader r) then 1 else 0)"
    and post: "\<forall>r \<in> set [3, 4, 2, 3]. \<not> is_running_c (objs (snd (Trader_stop ?w)) r)"
    unfolding regs tr ob by auto
  have "trace (snd (Trader_stop ?w)) =
     [Call 3 Stop, Log WARNING ''{actor} already stopped.'' (Some 4),
      Call 2 Stop, Log WARNING ''{strategy} already stopped.'' (Some 3)]"
    by (simp add: Trader_stop_def call_def log_line_def verb_of_def Component_stop_def
        example_defs)
  moreover have "count_list (trace (snd (Trader_stop ?w))) (Call 3 Stop) = 1"
    "count_list (trace (snd (Trader_stop ?w))) (Call 4 Stop) = 0"
    unfolding es cnt using run by simp_all
  moreover have "\<not> is_running_c (objs (snd (Trader_stop ?w)) 2)"
    using post by simp
  ultimately show ?thesis using run n by simp
qed

text \<open>
  The claim without the condition fails: in \<open>faulty_trader\<close> the \<open>on_stop\<close> hook of the
  actor 3 raises. The error leaves \<open>_stop\<close> after the one call; the strategy 2, which
  is registered and running, receives no \<open>stop()\<close> and is still running afterwards.
\<close>

theorem Trader_stop_cascade_counterexample:
  "2 \<in> set (t_actors faulty_trader @ t_strategies faulty_trader)
   \<and> is_running_c (objs faulty_trader 2)
   \<and> fst (Trader_stop faulty_trader) = Some (HookFailure Stop)
   \<and> trace (snd (Trader_stop faulty_trader)) = [Call 3 Stop]
   \<and> count_list (trace (snd (Trader_stop faulty_trader))) (Call 2 Stop) = 0
   \<and> is_running_c (objs (snd (Trader_stop faulty_trader)) 2)"
  by (simp add: Trader_stop_def call_def verb_of_def Component_stop_def faulty_trader_def
      example_defs)

subsection \<open>\<open>_reset\<close>\<close>

text \<open>
  C10. \<open>_reset\<close> returns exactly when no \<open>reset()\<close> it invokes raises, that is, when
  the \<open>on_reset\<close> hook of no stopped registered unit raises. When it returns, it has
  invoked \<open>reset()\<close> on every registered actor and then on every registered strategy,
  in registration order, and after them has reset the portfolio and the analyzer: a
  reset of the trader reaches state outside the two registries. The registries are as
  before in any case.
\<close>

theorem Trader_reset_cascade:
  "(fst (Trader_reset w) = None \<longleftrightarrow>
      (\<forall>r \<in> set (t_actors w @ t_strategies w).
         cstate (objs w r) = STOPPED \<longrightarrow> Reset \<notin> raising (objs w r)))
   \<and> (fst (Trader_reset w) = None \<longrightarrow>
        trace (snd (Trader_reset w)) =
          trace w @ map (\<lambda>r. Call r Reset) (t_actors w @ t_strategies w)
            @ [Portfolio_reset, Analyzer_reset])
   \<and> t_actors (snd (Trader_reset w)) = t_actors w
   \<and> t_strategies (snd (Trader_reset w)) = t_strategies w"
proof -
  let ?xs = "t_actors w" and ?ys = "t_strategies w"
  let ?Q = "\<forall>r \<in> set (?xs @ ?ys). cstate (objs w r) = STOPPED \<longrightarrow> Reset \<notin> raising (objs w r)"
  have Q: "?Q = quiet Reset w (?xs @ ?ys)"
    by (auto simp: quiet_def raises_Reset)
  obtain e1 w1 where 1: "call_each Reset ?xs w = (e1, w1)"
    by (cases "call_each Reset ?xs w")
  have r1: "t_actors w1 = ?xs" "t_strategies w1 = ?ys"
    using call_each_actors [of Reset ?xs w] call_each_strategies [of Reset ?xs w]
    unfolding 1 by simp_all
  obtain e2 w2 where 2: "call_each Reset ?ys w1 = (e2, w2)"
    by (cases "call_each Reset ?ys w1")
  have r2: "t_actors w2 = ?xs" "t_strategies w2 = ?ys"
    using call_each_actors [of Reset ?ys w1] call_each_strategies [of Reset ?ys w1] r1
    unfolding 2 by simp_all
  have R: "t_actors (snd (Trader_reset w)) = ?xs \<and> t_strategies (snd (Trader_reset w)) = ?ys"
    using r1 r2 by (cases e1; cases e2) (simp_all add: Trader_reset_def 1 2)
  have ok: "fst (Trader_reset w) = None
      \<and> trace (snd (Trader_reset w)) =
          trace w @ map (\<lambda>r. Call r Reset) (?xs @ ?ys) @ [Portfolio_reset, Analyzer_reset]"
    if q: "quiet Reset w (?xs @ ?ys)"
  proof -
    from q have a: "quiet Reset w ?xs" and s: "quiet Reset w ?ys"
      by (simp_all add: quiet_append)
    from call_each_quiet [OF a] s
    have e1: "e1 = None" and t1: "trace w1 = trace w @ map (\<lambda>r. Call r Reset) ?xs"
      and q1: "quiet Reset w1 ?ys"
      unfolding 1 by simp_all
    from call_each_quiet [OF q1]
    have e2: "e2 = None" and t2: "trace w2 = trace w1 @ map (\<lambda>r. Call r Reset) ?ys"
      unfolding 2 by simp_all
    show ?thesis
      by (simp add: Trader_reset_def 1 2 e1 e2 r1 t1 t2)
  qed
  have bad: "fst (Trader_reset w) \<noteq> None"
    if x: "x \<in> set (?xs @ ?ys)" and rx: "raises Reset (objs w x)" for x
  proof (cases "x \<in> set ?xs")
    case True
    from call_each_raises [OF True rx] have "e1 \<noteq> None"
      unfolding 1 by simp
    then show ?thesis
      by (cases e1) (simp_all add: Trader_reset_def 1)
  next
    case False
    with x have xs: "x \<in> set ?ys" by simp
    show ?thesis
    proof (cases e1)
      case None
      have "objs w1 x = objs w x"
        using call_each_objs [OF False, of Reset w] unfolding 1 by simp
      with rx have "raises Reset (objs w1 x)" by simp
      from call_each_raises [OF xs this] have "e2 \<noteq> None"
        unfolding 2 by simp
      then show ?thesis
        by (cases e2) (simp_all add: Trader_reset_def 1 2 None r1)
    next
      case (Some a)
      then show ?thesis by (simp add: Trader_reset_def 1)
    qed
  qed
  have A: "fst (Trader_reset w) = None \<longleftrightarrow> ?Q"
  proof
    assume n: "fst (Trader_reset w) = None"
    show ?Q
    proof (rule ccontr)
      assume "\<not> ?Q"
      then obtain x where "x \<in> set (?xs @ ?ys)" "raises Reset (objs w x)"
        by (auto simp: raises_Reset)
      from bad [OF this] n show False by simp
    qed
  next
    assume ?Q
    then show "fst (Trader_reset w) = None"
      unfolding Q using ok by blast
  qed
  have B: "trace (snd (Trader_reset w)) =
          trace w @ map (\<lambda>r. Call r Reset) (?xs @ ?ys) @ [Portfolio_reset, Analyzer_reset]"
    if "fst (Trader_reset w) = None"
    using that A ok unfolding Q by blast
  from A B R show ?thesis by blast
qed

theorem Trader_reset_cascade_witness:
  "fst (Trader_reset example_trader) = None
   \<and> trace (snd (Trader_reset example_trader)) =
     [Call 3 Reset, Call 4 Reset, Call 2 Reset, Portfolio_reset, Analyzer_reset]"
proof -
  have q: "\<forall>r \<in> set (t_actors example_trader @ t_strategies example_trader).
      cstate (objs example_trader r) = STOPPED \<longrightarrow> Reset \<notin> raising (objs example_trader r)"
    by (simp add: example_defs)
  with Trader_reset_cascade [of example_trader]
  have n: "fst (Trader_reset example_trader) = None" by blast
  with Trader_reset_cascade [of example_trader]
  have "trace (snd (Trader_reset example_trader)) =
      trace example_trader @ map (\<lambda>r. Call r Reset)
        (t_actors example_trader @ t_strategies example_trader)
        @ [Portfolio_reset, Analyzer_reset]"
    by blast
  with n show ?thesis by (simp add: example_trader_def)
qed

text \<open>
  The claim without the condition fails: in \<open>faulty_trader\<close> the \<open>on_reset\<close> hook of the
  stopped actor 4 raises. The error leaves \<open>_reset\<close>: the strategy 2 receives no
  \<open>reset()\<close>, and neither the portfolio nor the analyzer is reset.
\<close>

theorem Trader_reset_cascade_counterexample:
  "fst (Trader_reset faulty_trader) = Some (HookFailure Reset)
   \<and> trace (snd (Trader_reset faulty_trader)) = [Call 3 Reset, Call 4 Reset]
   \<and> Portfolio_reset \<notin> set (trace (snd (Trader_reset faulty_trader)))
   \<and> Analyzer_reset \<notin> set (trace (snd (Trader_reset faulty_trader)))
   \<and> Call 2 Reset \<notin> set (trace (snd (Trader_reset faulty_trader)))"
  by (simp add: Trader_reset_def call_def verb_of_def Component_reset_def faulty_trader_def
      example_defs)

section \<open>Queries: properties\<close>

text \<open>
  C8. When the cache holds no account for the venue, \<open>generate_account_report\<close> returns
  the empty data frame and raises nothing; and each of the four reports leaves the
  session (trader, registries, cache) exactly as it was.
\<close>

theorem reports_read_only:
  "(account_for_venue w venue = None \<longrightarrow>
      generate_account_report pa w venue = ([], w))
   \<and> snd (generate_account_report pa w venue) = w
   \<and> snd (generate_orders_report po w) = w
   \<and> snd (generate_order_fills_report pf w) = w
   \<and> snd (generate_positions_report pp w) = w"
  by (simp add: generate_account_report_def generate_orders_report_def
      generate_order_fills_report_def generate_positions_report_def split: option.split)

theorem reports_read_only_witness:
  "account_for_venue example_trader ''BINANCE'' = None
   \<and> generate_account_report (\<lambda>a. a) example_trader ''BINANCE'' = ([], example_trader)
   \<and> generate_account_report (\<lambda>a. a) example_trader ''SIM''
        = ([[''1000000 USD'']], example_trader)"
proof -
  have n: "account_for_venue example_trader ''BINANCE'' = None"
    by (simp add: account_for_venue_def example_trader_def)
  have "generate_account_report (\<lambda>a. a) example_trader ''SIM''
        = ([[''1000000 USD'']], example_trader)"
    by (simp add: generate_account_report_def account_for_venue_def)
      (simp add: example_trader_def)
  with n reports_read_only [of example_trader "''BINANCE''" "\<lambda>a. a"]
  show ?thesis by simp
qed

text \<open>
  C9. \<open>strategy_ids\<close> and \<open>actor_ids\<close> return the ids of the registered units in
  ascending order, whatever the order of registration: the result is sorted and holds
  exactly the ids of the registry, each as often as there. The session after the call
  is the session before it, so both registries are unchanged.
\<close>

theorem ids_sorted:
  "sorted (fst (strategy_ids w))
   \<and> mset (fst (strategy_ids w)) = mset (map (\<lambda>r. cid (objs w r)) (t_strategies w))
   \<and> snd (strategy_ids w) = w
   \<and> sorted (fst (actor_ids w))
   \<and> mset (fst (actor_ids w)) = mset (map (\<lambda>r. cid (objs w r)) (t_actors w))
   \<and> snd (actor_ids w) = w"
  by (simp add: strategy_ids_def actor_ids_def)

text \<open>Registered in the order S-002, S-001, the strategies are listed S-001, S-002.\<close>

theorem ids_sorted_witness:
  "map (\<lambda>r. cid (objs example_trader r)) [6, 2] = [''S-002'', ''S-001'']
   \<and> fst (strategy_ids (example_trader\<lparr>t_strategies := [6, 2]\<rparr>)) = [''S-001'', ''S-002'']
   \<and> fst (actor_ids example_trader) = [''A-001'', ''A-002'']"
proof -
  have "sorted (fst (strategy_ids (example_trader\<lparr>t_strategies := [6, 2]\<rparr>)))"
    using ids_sorted [of "example_trader\<lparr>t_strategies := [6, 2]\<rparr>"] by simp
  moreover have "fst (strategy_ids (example_trader\<lparr>t_strategies := [6, 2]\<rparr>))
      = [''S-001'', ''S-002'']"
    "fst (actor_ids example_trader) = [''A-001'', ''A-002'']"
    "map (\<lambda>r. cid (objs example_trader r)) [6, 2] = [''S-002'', ''S-001'']"
    by (simp_all add: strategy_ids_def actor_ids_def example_defs
        less_eq_char_def less_char_def insort_key.simps)
  ultimately show ?thesis by simp
qed


end
